theory Spec2Isabelle
  imports Complex_Main "HOL-Library.Word"
begin

section \<open>Conway's Game of Life on an LED matrix: the grid and one generation\<close>

text \<open>
  The program keeps the automaton in a two-dimensional numpy array of booleans with
  \<open>H\<close> rows and \<open>W\<close> columns. It is modelled as a list of rows.
\<close>

type_synonym grid = "bool list list"

definition wf_grid :: "nat \<Rightarrow> nat \<Rightarrow> 'a list list \<Rightarrow> bool" where
  "wf_grid H W g = (length g = H \<and> list_all (\<lambda>row. length row = W) g)"

text \<open>
  \<open>np.roll(a, k)\<close> along one axis moves the element at index \<open>i\<close> to index
  \<open>(i + k) mod n\<close>; an axis of length 0 is returned as it is.
\<close>

definition roll :: "int \<Rightarrow> 'a list \<Rightarrow> 'a list" where
  "roll k xs = (if xs = [] then [] else rotate (nat ((- k) mod int (length xs))) xs)"

definition roll0 :: "int \<Rightarrow> 'a list list \<Rightarrow> 'a list list" where
  "roll0 dy g = roll dy g"

definition roll1 :: "int \<Rightarrow> 'a list list \<Rightarrow> 'a list list" where
  "roll1 dx g = map (roll dx) g"

text \<open>
  The generator of the eight shifts: \<open>for dy in (-1, 0, 1) for dx in (-1, 0, 1)
  if not (dx == 0 and dy == 0)\<close>, in the order in which it yields them.
\<close>

definition offsets :: "(int \<times> int) list" where
  "offsets = concat (map (\<lambda>dy. map (\<lambda>dx. (dy, dx))
                 (filter (\<lambda>dx. \<not> (dx = 0 \<and> dy = 0)) [-1, 0, 1])) [-1, 0, 1])"

definition rolled :: "grid \<Rightarrow> grid list" where
  "rolled g = map (\<lambda>(dy, dx). roll1 dx (roll0 dy g)) offsets"

text \<open>
  Python's \<open>sum\<close> starts from the integer 0 and adds the arrays one after the other.
  The first addition broadcasts the scalar over the boolean array and gives an integer
  array; every later one adds a boolean array cell by cell. The counts never exceed 8,
  so numpy's 64-bit integers are modelled by \<open>int\<close>.
\<close>

definition add_scalar :: "int \<Rightarrow> grid \<Rightarrow> int list list" where
  "add_scalar n g = map (map (\<lambda>b. n + of_bool b)) g"

definition add_grid :: "int list list \<Rightarrow> grid \<Rightarrow> int list list" where
  "add_grid a g = map2 (map2 (\<lambda>n b. n + of_bool b)) a g"

fun py_sum :: "grid list \<Rightarrow> int list list" where
  "py_sum [] = []"
| "py_sum (g # gs) = foldl add_grid (add_scalar 0 g) gs"

definition neighbors :: "grid \<Rightarrow> int list list" where
  "neighbors g = py_sum (rolled g)"

text \<open>
  The life rule \<open>(neighbors == 3) | (grid & (neighbors == 2))\<close>, cell by cell.
\<close>

definition step :: "grid \<Rightarrow> grid" where
  "step g = map2 (map2 (\<lambda>n b. n = 3 \<or> (b \<and> n = 2))) (neighbors g) g"


subsection \<open>The neighbour count in the words of the specification\<close>

text \<open>
  The specification speaks of the 8 adjacent cells of a cell, with the row index wrapping
  modulo \<open>H\<close> and the column index modulo \<open>W\<close>. \<open>adjacent\<close> lists these eight
  positions, one for each direction. \<open>distinct_live_neighbours\<close> is the count of the
  specification: the number of different live cells among them, each counted once (3 for
  a cell of the all-alive 2 by 2 grid). \<open>live_neighbours\<close> counts the eight positions
  one by one instead, so that a cell reached from several directions is counted once for
  each of them.
\<close>

definition wrap :: "nat \<Rightarrow> int \<Rightarrow> nat" where
  "wrap n i = nat (i mod int n)"

definition directions :: "(int \<times> int) list" where
  "directions = [(-1, -1), (-1, 0), (-1, 1), (0, -1), (0, 1), (1, -1), (1, 0), (1, 1)]"

definition adjacent :: "nat \<Rightarrow> nat \<Rightarrow> nat \<Rightarrow> nat \<Rightarrow> (nat \<times> nat) list" where
  "adjacent H W r c = map (\<lambda>(dy, dx). (wrap H (int r + dy), wrap W (int c + dx))) directions"

definition alive :: "grid \<Rightarrow> nat \<times> nat \<Rightarrow> bool" where
  "alive g p = g ! fst p ! snd p"

definition live_neighbours :: "nat \<Rightarrow> nat \<Rightarrow> grid \<Rightarrow> nat \<Rightarrow> nat \<Rightarrow> int" where
  "live_neighbours H W g r c = int (length (filter (alive g) (adjacent H W r c)))"

definition distinct_live_neighbours :: "nat \<Rightarrow> nat \<Rightarrow> grid \<Rightarrow> nat \<Rightarrow> nat \<Rightarrow> int" where
  "distinct_live_neighbours H W g r c = int (card (set (filter (alive g) (adjacent H W r c))))"

section \<open>Rendering\<close>

text \<open>
  The frame is \<open>np.zeros((H, W, 3), dtype=np.uint8)\<close>; the assignment
  \<open>frame[grid] = [255, 255, 255]\<close> overwrites the pixels selected by the boolean mask.
\<close>

type_synonym pixel = "8 word list"
type_synonym frame = "pixel list list"

definition zeros :: "nat \<Rightarrow> nat \<Rightarrow> frame" where
  "zeros H W = replicate H (replicate W (replicate 3 0))"

definition mask_assign :: "frame \<Rightarrow> grid \<Rightarrow> pixel \<Rightarrow> frame" where
  "mask_assign f g v = map2 (map2 (\<lambda>p b. if b then v else p)) f g"

definition render :: "nat \<Rightarrow> nat \<Rightarrow> grid \<Rightarrow> frame" where
  "render H W g = mask_assign (zeros H W) g [255, 255, 255]"

section \<open>The program: configuration, environment and run loop\<close>

text \<open>
  The parsed command line. The density \<open>seed\<close> is a float, taken here as a real number:
  the comparison with a draw is exact on finite floats, and an infinite density behaves
  like any density above 1 or below 0 (a NaN is not modelled).
\<close>

record args =
  rows :: int
  cols :: int
  chain :: int
  parallel :: int
  hardware_mapping :: string
  gpio_slowdown :: int
  brightness :: int
  seed :: real
  fps :: int

text \<open>The options handed to the matrix driver.\<close>

record options =
  opt_rows :: int
  opt_cols :: int
  opt_chain_length :: int
  opt_parallel :: int
  opt_hardware_mapping :: string
  opt_gpio_slowdown :: int
  opt_brightness :: int

definition configure :: "args \<Rightarrow> options" where
  "configure a = \<lparr>opt_rows = rows a, opt_cols = cols a, opt_chain_length = chain a,
     opt_parallel = parallel a, opt_hardware_mapping = hardware_mapping a,
     opt_gpio_slowdown = gpio_slowdown a, opt_brightness = brightness a\<rparr>"

text \<open>
  What the program does not decide itself is an input of the model:
  \<^item> \<open>matrix\<close>, the outcome of the one call \<open>RGBMatrix(options=options)\<close> of the external
    driver: \<open>None\<close> when the construction raises, otherwise the \<open>(width, height)\<close> that
    the matrix reports;
  \<^item> \<open>random\<close>, the generator: \<open>random e k r c\<close> is the entry at row \<open>r\<close>, column \<open>c\<close> of
    the array returned by the \<open>k\<close>-th call of \<open>rng.random((H, W))\<close>;
  \<^item> \<open>sigint\<close>, the moment at which SIGINT first arrives: \<open>Some 0\<close> between the
    installation of the handler and the first test of the loop condition, \<open>Some k\<close> for
    \<open>k > 0\<close> during the \<open>k\<close>-th iteration, \<open>None\<close> never. The handler only clears
    \<open>running\<close>, so a later interrupt changes nothing.
\<close>

record env =
  matrix :: "(nat \<times> nat) option"
  random :: "nat \<Rightarrow> nat \<Rightarrow> nat \<Rightarrow> real"
  sigint :: "nat option"

datatype error = HardwareError | OverflowError

text \<open>The calls the program makes on the outside world, in the order it makes them.\<close>

datatype event = Init options | SetImage frame | Sleep real | Clear

fun is_SetImage :: "event \<Rightarrow> bool" where
  "is_SetImage (SetImage f) = True"
| "is_SetImage ev = False"

text \<open>The local variables of \<open>main\<close> that change while it runs, and the calls made so far.\<close>

record state =
  grid :: grid
  prev :: grid
  running :: bool
  calls :: nat
  trace :: "event list"

text \<open>\<open>rng.random((H, W)) < args.seed\<close>, for the \<open>k\<close>-th call of the generator.\<close>

definition random_array :: "env \<Rightarrow> nat \<Rightarrow> nat \<Rightarrow> nat \<Rightarrow> real list list" where
  "random_array e k H W = map (\<lambda>r. map (\<lambda>c. random e k r c) [0..<W]) [0..<H]"

definition less_scalar :: "real list list \<Rightarrow> real \<Rightarrow> grid" where
  "less_scalar xs d = map (map (\<lambda>x. x < d)) xs"

definition seed_grid :: "env \<Rightarrow> args \<Rightarrow> nat \<Rightarrow> nat \<Rightarrow> nat \<Rightarrow> grid" where
  "seed_grid e a k H W = less_scalar (random_array e k H W) (seed a)"

text \<open>\<open>new_grid.any()\<close> and \<open>np.array_equal(new_grid, prev)\<close>.\<close>

definition any_grid :: "grid \<Rightarrow> bool" where
  "any_grid g = list_ex (list_ex (\<lambda>b. b)) g"

definition array_equal :: "grid \<Rightarrow> grid \<Rightarrow> bool" where
  "array_equal x y = (x = y)"

text \<open>The test that decides whether the candidate is replaced by a fresh random grid.\<close>

definition reseeds :: "grid \<Rightarrow> grid \<Rightarrow> bool" where
  "reseeds new_grid p = (\<not> any_grid new_grid \<or> array_equal new_grid p)"

text \<open>
  \<open>frame_delay = 1.0 / max(1, args.fps)\<close>. The division converts the integer to a float
  first, and the conversion raises \<open>OverflowError\<close> when the integer rounds to \<open>2^1024\<close>
  or more, that is from \<open>2^1024 - 2^970\<close> on. Otherwise the quotient is taken as a real
  number.
\<close>

definition float_limit :: int where
  "float_limit = 2 ^ 1024 - 2 ^ 970"

definition frame_delay :: "args \<Rightarrow> error + real" where
  "frame_delay a =
     (if float_limit \<le> max 1 (fps a) then Inl OverflowError
      else Inr (1 / real_of_int (max 1 (fps a))))"

text \<open>One pass through the body of the \<open>while\<close> loop.\<close>

definition body :: "env \<Rightarrow> args \<Rightarrow> nat \<Rightarrow> nat \<Rightarrow> real \<Rightarrow> state \<Rightarrow> state" where
  "body e a H W fd s =
     (let new_grid = step (grid s);
          r = reseeds new_grid (prev s);
          new_grid = (if r then seed_grid e a (calls s) H W else new_grid)
      in s\<lparr>grid := new_grid, prev := grid s,
           calls := (if r then Suc (calls s) else calls s),
           trace := trace s @ [SetImage (render H W new_grid), Sleep fd]\<rparr>)"

text \<open>The handler \<open>_stop\<close>, and its invocation when the interrupt arrives at point \<open>k\<close>.\<close>

definition stop :: "state \<Rightarrow> state" where
  "stop s = s\<lparr>running := False\<rparr>"

definition deliver :: "env \<Rightarrow> nat \<Rightarrow> state \<Rightarrow> state" where
  "deliver e k s = (if sigint e = Some k then stop s else s)"

text \<open>
  The loop \<open>while running: ...\<close>; \<open>k\<close> counts the iterations completed so far. Without
  an interrupt the loop does not end, and the result is \<open>None\<close>.
\<close>

partial_function (option) run_loop ::
  "env \<Rightarrow> args \<Rightarrow> nat \<Rightarrow> nat \<Rightarrow> real \<Rightarrow> nat \<Rightarrow> state \<Rightarrow> state option" where
  "run_loop e a H W fd k s =
     (if running s then run_loop e a H W fd (Suc k) (deliver e (Suc k) (body e a H W fd s))
      else Some s)"

text \<open>
  The state in front of the loop: the seed grid drawn by the first call of the generator,
  \<open>prev\<close> a copy of it, \<open>running\<close> set, and the matrix constructed.
\<close>

definition seeded :: "env \<Rightarrow> args \<Rightarrow> nat \<Rightarrow> nat \<Rightarrow> state" where
  "seeded e a H W =
     \<lparr>grid = seed_grid e a 0 H W, prev = seed_grid e a 0 H W, running = True, calls = 1,
      trace = [Init (configure a)]\<rparr>"

text \<open>
  \<open>main\<close>: construct the matrix, seed the grid, install the handler, compute the frame
  delay, run the loop, clear the display. The result is the sequence of calls made by a
  run that returns, or the error that ended the run together with the calls made before
  it; an error is not caught, so no call follows it.
\<close>

definition main :: "env \<Rightarrow> args \<Rightarrow> ((error \<times> event list) + event list) option" where
  "main e a =
     (case matrix e of
        None \<Rightarrow> Some (Inl (HardwareError, []))
      | Some (W, H) \<Rightarrow>
          (case frame_delay a of
             Inl err \<Rightarrow> Some (Inl (err, trace (seeded e a H W)))
           | Inr fd \<Rightarrow>
               map_option (\<lambda>s. Inr (trace s @ [Clear]))
                 (run_loop e a H W fd 0 (deliver e 0 (seeded e a H W)))))"

subsection \<open>Inputs for concrete runs\<close>

text \<open>The defaults of the argument parser.\<close>

definition default_args :: args where
  "default_args = \<lparr>rows = 16, cols = 32, chain = 1, parallel = 1,
     hardware_mapping = ''adafruit-hat'', gpio_slowdown = 4, brightness = 80,
     seed = 1 / 4, fps = 30\<rparr>"

text \<open>
  A generator with a script: its \<open>k\<close>-th array is 0 on the live cells of the \<open>k\<close>-th grid
  of the script and 3/4 on the others, so that a density in \<open>(0, 3/4]\<close> seeds that grid.
\<close>

definition scripted :: "grid list \<Rightarrow> nat \<Rightarrow> nat \<Rightarrow> nat \<Rightarrow> real" where
  "scripted gs k r c = (if gs ! k ! r ! c then 0 else 3 / 4)"

text \<open>
  Grids for concrete runs: a blinker and another pattern on 5 by 5, a lone cell and the
  empty grid on 3 by 3, an L-tromino and the block it grows into on 4 by 4, and three
  grids on 2 by 2.
\<close>

definition blinker :: grid where
  "blinker = [[False, False, False, False, False],
              [False, False, False, False, False],
              [False, True, True, True, False],
              [False, False, False, False, False],
              [False, False, False, False, False]]"

definition corner5 :: grid where
  "corner5 = [[True, True, False, False, False],
              [True, False, False, False, False],
              [False, False, False, False, False],
              [False, False, False, False, False],
              [False, False, False, False, False]]"

definition lone :: grid where
  "lone = [[False, False, False], [False, True, False], [False, False, False]]"

definition tromino :: grid where
  "tromino = [[False, False, False, False],
              [False, True, True, False],
              [False, True, False, False],
              [False, False, False, False]]"

definition block :: grid where
  "block = [[False, False, False, False],
            [False, True, True, False],
            [False, True, True, False],
            [False, False, False, False]]"

abbreviation duo :: grid where "duo \<equiv> [[True, True], [False, False]]"

abbreviation solo :: grid where "solo \<equiv> [[True, False], [False, False]]"

abbreviation full2 :: grid where "full2 \<equiv> [[True, True], [True, True]]"

abbreviation dark3 :: grid where
  "dark3 \<equiv> [[False, False, False], [False, False, False], [False, False, False]]"

text \<open>
  The pacing rule in the words of the specification, for comparison: sleep for the rest
  of the budget when the iteration took less than the budget, otherwise do not sleep.
\<close>

definition spec_pacing :: "real \<Rightarrow> real \<Rightarrow> event list" where
  "spec_pacing budget elapsed = (if elapsed < budget then [Sleep (budget - elapsed)] else [])"


section \<open>Properties of one generation\<close>

subsection \<open>Rolling, summing and the life rule, cell by cell\<close>

lemma length_roll: "length (roll k xs) = length xs"
  by (simp add: roll_def)

lemma nth_roll:
  assumes "i < length xs"
  shows "roll k xs ! i = xs ! nat ((int i - k) mod int (length xs))"
proof -
  let ?n = "length xs"
  from assms have pos: "0 < int ?n" and ne: "xs \<noteq> []" by auto
  have m0: "0 \<le> (- k) mod int ?n" using pos by simp
  have "int ((nat ((- k) mod int ?n) + i) mod ?n) = ((- k) mod int ?n + int i) mod int ?n"
    using m0 by (simp add: zmod_int)
  also have "\<dots> = (int i - k) mod int ?n"
    by (metis mod_add_left_eq add.commute uminus_add_conv_diff)
  finally have "(nat ((- k) mod int ?n) + i) mod ?n = nat ((int i - k) mod int ?n)"
    by (metis nat_int)
  with assms ne show ?thesis
    by (simp add: roll_def nth_rotate)
qed

lemma wf_grid_nth: "wf_grid H W g \<Longrightarrow> r < H \<Longrightarrow> length (g ! r) = W"
  by (simp add: wf_grid_def list_all_length)

lemma wf_grid_roll: "wf_grid H W g \<Longrightarrow> wf_grid H W (roll1 dx (roll0 dy g))"
  by (auto simp: wf_grid_def roll0_def roll1_def length_roll list_all_iff roll_def)

lemma wrap_less: "0 < n \<Longrightarrow> wrap n i < n"
  by (simp add: wrap_def nat_less_iff)

lemma nth_rolled:
  assumes "wf_grid H W g" "r < H" "c < W"
  shows "roll1 dx (roll0 dy g) ! r ! c = g ! wrap H (int r - dy) ! wrap W (int c - dx)"
proof -
  from assms have lg: "length g = H" by (simp add: wf_grid_def)
  have wr: "wrap H (int r - dy) < H" using assms by (simp add: wrap_less)
  have "roll1 dx (roll0 dy g) ! r = roll dx (roll dy g ! r)"
    using assms lg by (simp add: roll1_def roll0_def length_roll)
  also have "roll dy g ! r = g ! wrap H (int r - dy)"
    using assms lg by (simp add: nth_roll wrap_def)
  finally have "roll1 dx (roll0 dy g) ! r ! c = roll dx (g ! wrap H (int r - dy)) ! c" by simp
  also have "\<dots> = g ! wrap H (int r - dy) ! wrap W (int c - dx)"
    using assms wr wf_grid_nth[OF assms(1) wr] by (simp add: nth_roll wrap_def)
  finally show ?thesis .
qed

lemma wf_add_scalar: "wf_grid H W g \<Longrightarrow> wf_grid H W (add_scalar n g)"
  by (simp add: wf_grid_def add_scalar_def list_all_iff)

lemma wf_add_grid: "wf_grid H W a \<Longrightarrow> wf_grid H W g \<Longrightarrow> wf_grid H W (add_grid a g)"
  by (auto simp: wf_grid_def add_grid_def list_all_length)

lemma nth_add_scalar:
  "wf_grid H W g \<Longrightarrow> r < H \<Longrightarrow> c < W \<Longrightarrow> add_scalar n g ! r ! c = n + of_bool (g ! r ! c)"
  by (simp add: wf_grid_def add_scalar_def list_all_length)

lemma nth_add_grid:
  "wf_grid H W a \<Longrightarrow> wf_grid H W g \<Longrightarrow> r < H \<Longrightarrow> c < W \<Longrightarrow>
   add_grid a g ! r ! c = a ! r ! c + of_bool (g ! r ! c)"
  by (simp add: wf_grid_def add_grid_def list_all_length)

lemma foldl_add_grid:
  "wf_grid H W a \<Longrightarrow> list_all (wf_grid H W) gs \<Longrightarrow>
   wf_grid H W (foldl add_grid a gs) \<and>
   (r < H \<longrightarrow> c < W \<longrightarrow>
      foldl add_grid a gs ! r ! c = a ! r ! c + (\<Sum>g\<leftarrow>gs. of_bool (g ! r ! c)))"
proof (induction gs arbitrary: a)
  case Nil
  then show ?case by simp
next
  case (Cons g gs)
  then have wg: "wf_grid H W g" and wgs: "list_all (wf_grid H W) gs" by simp_all
  have wa: "wf_grid H W (add_grid a g)" using Cons.prems(1) wg by (rule wf_add_grid)
  from Cons.IH[OF wa wgs] show ?case
    by (auto simp: nth_add_grid[OF Cons.prems(1) wg])
qed

lemma py_sum_wf:
  "list_all (wf_grid H W) (g # gs) \<Longrightarrow> wf_grid H W (py_sum (g # gs))"
  using foldl_add_grid[of H W "add_scalar 0 g" gs] by (simp add: wf_add_scalar)

lemma py_sum_nth:
  "list_all (wf_grid H W) (g # gs) \<Longrightarrow> r < H \<Longrightarrow> c < W \<Longrightarrow>
   py_sum (g # gs) ! r ! c = (\<Sum>x\<leftarrow>g # gs. of_bool (x ! r ! c))"
proof -
  assume a: "list_all (wf_grid H W) (g # gs)" "r < H" "c < W"
  then have wg: "wf_grid H W g" by simp
  have "add_scalar 0 g ! r ! c = of_bool (g ! r ! c)"
    using nth_add_scalar[OF wg a(2) a(3), of 0] by simp
  then show ?thesis
    using foldl_add_grid[of H W "add_scalar 0 g" gs r c] a wg
    by (simp add: wf_add_scalar)
qed

lemma offsets_eq:
  "offsets = [(-1, -1), (-1, 0), (-1, 1), (0, -1), (0, 1), (1, -1), (1, 0), (1, 1)]"
  by (simp add: offsets_def)

lemma wf_neighbors: "wf_grid H W g \<Longrightarrow> wf_grid H W (neighbors g)"
  unfolding neighbors_def rolled_def offsets_eq list.map prod.case
  by (rule py_sum_wf) (simp add: wf_grid_roll)

lemma nth_neighbors:
  assumes "wf_grid H W g" "r < H" "c < W"
  shows "neighbors g ! r ! c =
    (\<Sum>(dy, dx)\<leftarrow>offsets. of_bool (g ! wrap H (int r - dy) ! wrap W (int c - dx)))"
proof -
  have "neighbors g ! r ! c = (\<Sum>x\<leftarrow>rolled g. of_bool (x ! r ! c))"
    unfolding neighbors_def rolled_def offsets_eq list.map prod.case
    by (subst py_sum_nth[where H=H and W=W]) (simp_all add: wf_grid_roll assms)
  also have "\<dots> = (\<Sum>(dy, dx)\<leftarrow>offsets. of_bool (g ! wrap H (int r - dy) ! wrap W (int c - dx)))"
    by (simp add: rolled_def offsets_eq nth_rolled[OF assms])
  finally show ?thesis .
qed

lemma wf_step: "wf_grid H W g \<Longrightarrow> wf_grid H W (step g)"
  using wf_neighbors[of H W g] by (auto simp: step_def wf_grid_def list_all_length)

lemma nth_step:
  "wf_grid H W g \<Longrightarrow> r < H \<Longrightarrow> c < W \<Longrightarrow>
   step g ! r ! c = (neighbors g ! r ! c = 3 \<or> (g ! r ! c \<and> neighbors g ! r ! c = 2))"
  using wf_neighbors[of H W g] by (simp add: step_def wf_grid_def list_all_length)


lemma neighbors_live_neighbours:
  assumes "wf_grid H W g" "r < H" "c < W"
  shows "neighbors g ! r ! c = live_neighbours H W g r c"
  unfolding nth_neighbors[OF assms] live_neighbours_def adjacent_def directions_def offsets_eq alive_def
  by simp

lemma wrap_same: "r < H \<Longrightarrow> wrap H (int r) = r"
  by (simp add: wrap_def)

lemma wrap_pred: "r < H \<Longrightarrow> wrap H (int r - 1) = (if r = 0 then H - 1 else r - 1)"
proof (cases "r = 0")
  case True
  assume "r < H"
  with True have "(- 1) mod int H = int H - 1" by (simp add: zmod_minus1)
  with True show ?thesis by (simp add: wrap_def)
next
  case False
  assume "r < H"
  with False have "(int r - 1) mod int H = int r - 1" by (simp add: mod_pos_pos_trivial)
  with False show ?thesis by (simp add: wrap_def nat_diff_distrib')
qed

lemma wrap_succ: "r < H \<Longrightarrow> wrap H (int r + 1) = (if Suc r = H then 0 else Suc r)"
proof (cases "Suc r = H")
  case True
  then have "int r + 1 = int H" by auto
  with True show ?thesis by (simp add: wrap_def)
next
  case False
  assume "r < H"
  with False have "(int r + 1) mod int H = int r + 1" by (simp add: mod_pos_pos_trivial)
  with False show ?thesis by (simp add: wrap_def nat_add_distrib)
qed

lemma wrap_three:
  assumes "3 \<le> H" "r < H"
  shows "wrap H (int r - 1) \<noteq> r" "wrap H (int r + 1) \<noteq> r"
    "wrap H (int r - 1) \<noteq> wrap H (int r + 1)"
  using assms by (auto simp: wrap_pred wrap_succ)

lemma adjacent_eq:
  "adjacent H W r c =
    [(wrap H (int r - 1), wrap W (int c - 1)), (wrap H (int r - 1), wrap W (int c)),
     (wrap H (int r - 1), wrap W (int c + 1)), (wrap H (int r), wrap W (int c - 1)),
     (wrap H (int r), wrap W (int c + 1)), (wrap H (int r + 1), wrap W (int c - 1)),
     (wrap H (int r + 1), wrap W (int c)), (wrap H (int r + 1), wrap W (int c + 1))]"
  by (simp add: adjacent_def directions_def)

lemma distinct_adjacent:
  assumes "3 \<le> H" "3 \<le> W" "r < H" "c < W"
  shows "distinct (adjacent H W r c)"
  using wrap_three[OF assms(1,3)] wrap_three[OF assms(2,4)] assms(3,4)
  by (auto simp: adjacent_eq wrap_same)

lemma distinct_live_neighbours_eq:
  assumes "3 \<le> H" "3 \<le> W" "r < H" "c < W"
  shows "distinct_live_neighbours H W g r c = live_neighbours H W g r c"
proof -
  have "distinct (filter (alive g) (adjacent H W r c))"
    using assms by (simp add: distinct_adjacent)
  then show ?thesis
    using distinct_card[of "filter (alive g) (adjacent H W r c)"]
    by (simp add: distinct_live_neighbours_def live_neighbours_def del: set_filter)
qed

lemma opposite_corner:
  assumes "0 < H" "0 < W"
  shows "hd (adjacent H W 0 0) = (H - 1, W - 1)"
  using wrap_pred[of 0 H] wrap_pred[of 0 W] assms by (simp add: adjacent_eq)

lemma live_neighbours_full:
  assumes "0 < H" "0 < W"
  shows "live_neighbours H W (replicate H (replicate W True)) r c = 8"
proof -
  have "alive (replicate H (replicate W True)) (wrap H i, wrap W j)" for i j
    using assms by (simp add: alive_def wrap_less)
  then show ?thesis by (simp add: live_neighbours_def adjacent_eq)
qed

lemma wrap_small:
  assumes "0 < H" "H < 3" "r < H"
  shows "wrap H (int r - 1) = wrap H (int r + 1)"
  using assms by (auto simp: wrap_pred wrap_succ)

lemma length_adjacent: "length (adjacent H W r c) = 8"
  by (simp add: adjacent_eq)

lemma not_distinct_nth:
  "i < length xs \<Longrightarrow> j < length xs \<Longrightarrow> i \<noteq> j \<Longrightarrow> xs ! i = xs ! j \<Longrightarrow> \<not> distinct xs"
  by (simp add: distinct_conv_nth) blast

lemma not_distinct_adjacent:
  assumes "0 < H" "0 < W" "H < 3 \<or> W < 3" "r < H" "c < W"
  shows "\<not> distinct (adjacent H W r c)"
  using assms(3)
proof
  assume "H < 3"
  then have e: "wrap H (int r - 1) = wrap H (int r + 1)"
    using assms by (simp add: wrap_small)
  have "adjacent H W r c ! 1 = adjacent H W r c ! 6"
    by (simp add: adjacent_eq e)
  then show ?thesis
    by (rule not_distinct_nth[rotated 3]) (simp_all add: length_adjacent)
next
  assume "W < 3"
  then have e: "wrap W (int c - 1) = wrap W (int c + 1)"
    using assms by (simp add: wrap_small)
  have "adjacent H W r c ! 3 = adjacent H W r c ! 4"
    by (simp add: adjacent_eq e)
  then show ?thesis
    by (rule not_distinct_nth[rotated 3]) (simp_all add: length_adjacent)
qed

lemma wf_full: "wf_grid H W (replicate H (replicate W x))"
  by (simp add: wf_grid_def list_all_length)

section \<open>Properties of the run loop\<close>

lemma running_body [simp]: "running (body e a H W fd s) = running s"
  by (simp add: body_def Let_def)

lemma running_funpow_body [simp]: "running ((body e a H W fd ^^ n) s) = running s"
  by (induction n) simp_all

lemma trace_body:
  "trace (body e a H W fd s) =
     trace s @ [SetImage (render H W (grid (body e a H W fd s))), Sleep fd]"
  by (simp add: body_def Let_def)

text \<open>The frames pushed and the pauses made by the first \<open>n\<close> iterations from \<open>s\<close>.\<close>

lemma trace_funpow_body:
  "trace ((body e a H W fd ^^ n) s) =
     trace s @ concat (map (\<lambda>i. [SetImage (render H W (grid ((body e a H W fd ^^ Suc i) s))),
                                  Sleep fd]) [0..<n])"
proof (induction n)
  case 0
  then show ?case by simp
next
  case (Suc n)
  have "trace ((body e a H W fd ^^ Suc n) s) =
      trace ((body e a H W fd ^^ n) s) @
        [SetImage (render H W (grid ((body e a H W fd ^^ Suc n) s))), Sleep fd]"
    using trace_body[of e a H W fd "(body e a H W fd ^^ n) s"] by simp
  with Suc show ?case by simp
qed

lemma run_loop_stopped: "\<not> running s \<Longrightarrow> run_loop e a H W fd k s = Some s"
  by (subst run_loop.simps) simp

lemma run_loop_interrupted:
  assumes "running s" "sigint e = Some (Suc (k + m))"
  shows "run_loop e a H W fd k s = Some (stop ((body e a H W fd ^^ Suc m) s))"
  using assms
proof (induction m arbitrary: k s)
  case 0
  then have "run_loop e a H W fd k s = run_loop e a H W fd (Suc k) (stop (body e a H W fd s))"
    by (subst run_loop.simps) (simp add: deliver_def)
  also have "\<dots> = Some (stop (body e a H W fd s))"
    by (rule run_loop_stopped) (simp add: stop_def)
  finally show ?case by simp
next
  case (Suc m)
  from Suc.prems have
    "run_loop e a H W fd k s = run_loop e a H W fd (Suc k) (body e a H W fd s)"
    by (subst run_loop.simps) (simp add: deliver_def)
  also have "\<dots> = Some (stop ((body e a H W fd ^^ Suc m) (body e a H W fd s)))"
  proof (rule Suc.IH)
    show "running (body e a H W fd s)" using Suc.prems(1) by simp
    show "sigint e = Some (Suc (Suc k + m))" using Suc.prems(2) by simp
  qed
  finally show ?case by (simp add: funpow_swap1)
qed

text \<open>Without an interrupt the loop never returns.\<close>

lemma run_loop_returns:
  assumes "run_loop e a H W fd k s = Some s'"
  shows "sigint e = None \<longrightarrow> \<not> running s"
proof (rule run_loop.raw_induct
    [where P = "\<lambda>e a H W fd k s y. sigint e = None \<longrightarrow> \<not> running s", OF _ assms])
  fix f e a H W fd k s y
  assume ih: "\<And>e a H W fd k s y. f e a H W fd k s = Some y \<Longrightarrow>
      sigint e = None \<longrightarrow> \<not> running s"
    and st: "(if running s then f e a H W fd (Suc k) (deliver e (Suc k) (body e a H W fd s))
             else Some s) = Some y"
  show "sigint e = None \<longrightarrow> \<not> running s"
  proof (intro impI notI)
    assume n: "sigint e = None" and r: "running s"
    with st have "f e a H W fd (Suc k) (body e a H W fd s) = Some y"
      by (simp add: deliver_def)
    from ih[OF this] n r show False by simp
  qed
qed

lemma frame_delay_ok:
  "max 1 (fps a) < float_limit \<Longrightarrow> frame_delay a = Inr (1 / real_of_int (max 1 (fps a)))"
  unfolding frame_delay_def by (simp only: not_le[symmetric] if_False)

lemma frame_delay_overflow:
  "float_limit \<le> max 1 (fps a) \<Longrightarrow> frame_delay a = Inl OverflowError"
  by (simp add: frame_delay_def)

lemma main_overflow:
  assumes "matrix e = Some (W, H)" "float_limit \<le> max 1 (fps a)"
  shows "main e a = Some (Inl (OverflowError, [Init (configure a)]))"
  using assms by (simp add: main_def frame_delay_overflow seeded_def)

lemma main_interrupted:
  assumes "matrix e = Some (W, H)" "sigint e = Some n" "frame_delay a = Inr fd"
  shows "main e a = Some (Inr (Init (configure a) #
     concat (map (\<lambda>i. [SetImage (render H W (grid ((body e a H W fd ^^ Suc i)
            (seeded e a H W)))), Sleep fd]) [0..<n]) @ [Clear]))"
proof (cases n)
  case 0
  with assms(2) have "deliver e 0 (seeded e a H W) = stop (seeded e a H W)"
    by (simp add: deliver_def)
  then show ?thesis using assms(1,3) 0
    by (simp add: main_def run_loop_stopped stop_def seeded_def)
next
  case (Suc m)
  with assms(2) have d: "deliver e 0 (seeded e a H W) = seeded e a H W"
    by (simp add: deliver_def)
  have "run_loop e a H W fd 0 (seeded e a H W) =
      Some (stop ((body e a H W fd ^^ Suc m) (seeded e a H W)))"
  proof (rule run_loop_interrupted)
    show "running (seeded e a H W)" by (simp add: seeded_def)
    show "sigint e = Some (Suc (0 + m))" using assms(2) Suc by simp
  qed
  then show ?thesis using assms(1,3) Suc d
    by (simp add: main_def stop_def trace_funpow_body del: funpow.simps upt_Suc)
       (simp add: seeded_def)
qed

lemma main_forever:
  assumes "matrix e = Some (W, H)" "sigint e = None" "frame_delay a = Inr fd"
  shows "main e a = None"
proof (cases "run_loop e a H W fd 0 (deliver e 0 (seeded e a H W))")
  case None
  with assms(1,3) show ?thesis by (simp add: main_def)
next
  case (Some s')
  from run_loop_returns[OF Some] assms(2) show ?thesis
    by (simp add: deliver_def seeded_def)
qed

section \<open>Properties of rendering\<close>

lemma wf_zeros: "wf_grid H W (zeros H W)"
  by (simp add: zeros_def wf_grid_def list_all_length)

lemma wf_render: "wf_grid H W g \<Longrightarrow> wf_grid H W (render H W g)"
  by (simp add: render_def mask_assign_def zeros_def wf_grid_def list_all_length)

lemma nth_render:
  "wf_grid H W g \<Longrightarrow> r < H \<Longrightarrow> c < W \<Longrightarrow>
   render H W g ! r ! c = (if g ! r ! c then [255, 255, 255] else [0, 0, 0])"
  by (simp add: render_def mask_assign_def zeros_def wf_grid_def list_all_length
        numeral_3_eq_3)

section \<open>Properties of the engine's state\<close>

lemma grid_body:
  "grid (body e a H W fd s) =
     (if reseeds (step (grid s)) (prev s) then seed_grid e a (calls s) H W else step (grid s))"
  by (simp add: body_def Let_def)

lemma prev_body: "prev (body e a H W fd s) = grid s"
  by (simp add: body_def Let_def)

lemma calls_body:
  "calls (body e a H W fd s) =
     (if reseeds (step (grid s)) (prev s) then Suc (calls s) else calls s)"
  by (simp add: body_def Let_def)

lemma frames_SetImage:
  "length (filter is_SetImage (concat (map (\<lambda>i. [SetImage (F i), Sleep d]) xs))) = length xs"
  by (induction xs) simp_all

lemma frames_no_Clear: "Clear \<notin> set (concat (map (\<lambda>i. [SetImage (F i), Sleep d]) xs))"
  by (induction xs) simp_all

lemma any_seed_grid:
  "any_grid (seed_grid e a k H W) = (\<exists>r<H. \<exists>c<W. random e k r c < seed a)"
  by (simp add: any_grid_def seed_grid_def less_scalar_def random_array_def list_ex_iff
        Bex_def)

section \<open>Evaluation on concrete inputs\<close>

text \<open>
  The three shifts the program uses, on a list given by its elements, and the index
  ranges of a grid of given size.
\<close>

lemma roll_zero: "roll 0 xs = xs"
  by (simp add: roll_def)

lemma roll_minus_one: "roll (- 1) (x # xs) = xs @ [x]"
proof -
  have "(1::int) mod (1 + int (length xs)) = (if xs = [] then 0 else 1)"
    by (simp add: mod_pos_pos_trivial)
  then show ?thesis by (simp add: roll_def)
qed

lemma roll_one: "roll 1 (x # xs) = last (x # xs) # butlast (x # xs)"
proof (rule nth_equalityI)
  show "length (roll 1 (x # xs)) = length (last (x # xs) # butlast (x # xs))"
    by (simp add: length_roll)
next
  fix i assume "i < length (roll 1 (x # xs))"
  then have i: "i < length (x # xs)" by (simp add: length_roll)
  have "roll 1 (x # xs) ! i = (x # xs) ! wrap (length (x # xs)) (int i - 1)"
    using nth_roll[OF i, of 1] by (simp add: wrap_def)
  also have "\<dots> = (x # xs) ! (if i = 0 then length (x # xs) - 1 else i - 1)"
    using wrap_pred[OF i] by simp
  also have "\<dots> = (last (x # xs) # butlast (x # xs)) ! i"
    using i by (cases i) (simp_all add: last_conv_nth nth_butlast del: last.simps butlast.simps)
  finally show "roll 1 (x # xs) ! i = (last (x # xs) # butlast (x # xs)) ! i" .
qed

lemma upt_numeral_0: "[0..<numeral n] = 0 # [Suc 0..<numeral n]"
  by (simp add: upt_conv_Cons)

lemma upt_numeral_Suc:
  "[Suc i..<numeral n] = (if Suc i < numeral n then Suc i # [Suc (Suc i)..<numeral n] else [])"
  by (simp add: upt_conv_Cons)

lemmas step_eval = step_def neighbors_def rolled_def offsets_eq roll0_def roll1_def
  roll_zero roll_minus_one roll_one add_scalar_def add_grid_def

lemmas seed_eval = seed_grid_def less_scalar_def random_array_def scripted_def
  default_args_def upt_numeral_0 upt_numeral_Suc

lemmas state_eval = body_def seeded_def reseeds_def array_equal_def any_grid_def Let_def

lemma frame_delay_default: "frame_delay (default_args\<lparr>seed := d\<rparr>) = Inr (1 / 30)"
  by (simp add: frame_delay_def float_limit_def default_args_def)

lemma step_blinker: "step blinker = [[False, False, False, False, False],
              [False, False, True, False, False],
              [False, False, True, False, False],
              [False, False, True, False, False],
              [False, False, False, False, False]]"
  by (simp add: blinker_def step_eval)

lemma step_step_blinker: "step (step blinker) = blinker"
  unfolding step_blinker by (simp add: blinker_def step_eval)

lemma seed_blinker:
  "seed_grid \<lparr>matrix = Some (5, 5), random = scripted [blinker, corner5], sigint = None\<rparr>
      default_args 0 5 5 = blinker"
  by (simp add: seed_eval blinker_def)

lemma seed_blinker1:
  "seed_grid \<lparr>matrix = Some (5, 5), random = scripted [blinker, corner5], sigint = None\<rparr>
      default_args (Suc 0) 5 5 = corner5"
  by (simp add: seed_eval corner5_def)

lemma step_tromino: "step tromino = block"
  by (simp add: tromino_def block_def step_eval)

lemma step_block: "step block = block"
  by (simp add: block_def step_eval)

lemma seed_tromino:
  "seed_grid \<lparr>matrix = Some (4, 4), random = scripted [tromino, lone], sigint = None\<rparr>
      default_args 0 4 4 = tromino"
  by (simp add: seed_eval tromino_def)

lemma tromino_not_block: "tromino \<noteq> block"
  by (simp add: tromino_def block_def)

lemma any_block: "any_grid block"
  by (simp add: any_grid_def block_def)

lemma body_tromino:
  "body \<lparr>matrix = Some (4, 4), random = scripted [tromino, lone], sigint = None\<rparr>
      default_args 4 4 (1 / 30)
     (seeded \<lparr>matrix = Some (4, 4), random = scripted [tromino, lone], sigint = None\<rparr>
        default_args 4 4) =
   \<lparr>grid = block, prev = tromino, running = True, calls = 1,
    trace = [Init (configure default_args), SetImage (render 4 4 block), Sleep (1 / 30)]\<rparr>"
  using tromino_not_block any_block
  by (simp add: state_eval seed_tromino step_tromino eq_commute[of block tromino])

lemma body_block:
  "body \<lparr>matrix = Some (4, 4), random = scripted [tromino, lone], sigint = None\<rparr>
      default_args 4 4 (1 / 30)
     \<lparr>grid = block, prev = tromino, running = True, calls = 1,
      trace = [Init (configure default_args), SetImage (render 4 4 block), Sleep (1 / 30)]\<rparr> =
   \<lparr>grid = block, prev = block, running = True, calls = 1,
    trace = [Init (configure default_args), SetImage (render 4 4 block), Sleep (1 / 30),
             SetImage (render 4 4 block), Sleep (1 / 30)]\<rparr>"
  using tromino_not_block any_block
  by (simp add: state_eval step_block eq_commute[of block tromino])

lemma step_duo: "step duo = duo"
  by (simp add: step_eval)

lemma seed_duo:
  "seed_grid \<lparr>matrix = Some (2, 2), random = scripted [duo, solo], sigint = Some (Suc 0)\<rparr>
      default_args 0 2 2 = duo"
  "seed_grid \<lparr>matrix = Some (2, 2), random = scripted [duo, solo], sigint = Some (Suc 0)\<rparr>
      default_args (Suc 0) 2 2 = solo"
  by (simp_all add: seed_eval)

lemma main_duo:
  "main \<lparr>matrix = Some (2, 2), random = scripted [duo, solo], sigint = Some (Suc 0)\<rparr>
     default_args =
   Some (Inr [Init (configure default_args), SetImage (render 2 2 solo), Sleep (1 / 30),
     Clear])"
proof -
  let ?e = "\<lparr>matrix = Some (2, 2), random = scripted [duo, solo], sigint = Some (Suc 0)\<rparr>"
  have "grid (body ?e default_args 2 2 (1 / 30) (seeded ?e default_args 2 2)) = solo"
    by (simp add: state_eval seed_duo step_duo)
  then show ?thesis
    using main_interrupted[of ?e 2 2 "Suc 0" default_args "1 / 30"]
      frame_delay_default[of "seed default_args"]
    by simp
qed

lemma seed_full:
  "seed_grid \<lparr>matrix = Some (2, 2), random = scripted [solo, solo], sigint = Some (Suc 0)\<rparr>
      (default_args\<lparr>seed := 3 / 2\<rparr>) 0 2 2 = full2"
  "seed_grid \<lparr>matrix = Some (2, 2), random = scripted [solo, solo], sigint = Some (Suc 0)\<rparr>
      (default_args\<lparr>seed := 3 / 2\<rparr>) (Suc 0) 2 2 = full2"
  by (simp_all add: seed_eval)

lemma step_lone: "step lone = dark3"
  by (simp add: lone_def step_eval)

lemma step_dark3: "step dark3 = dark3"
  by (simp add: step_eval)

lemma seed_zero:
  "seed_grid \<lparr>matrix = m, random = scripted gs, sigint = i\<rparr>
     (default_args\<lparr>seed := 0\<rparr>) k 3 3 = dark3"
  by (simp add: seed_eval)

lemma seed_lone:
  "seed_grid \<lparr>matrix = Some (3, 3), random = scripted [lone, lone], sigint = None\<rparr>
      default_args (Suc 0) 3 3 = lone"
  by (simp add: seed_eval lone_def)

section \<open>The claims of the specification\<close>

subsection \<open>One generation\<close>

text \<open>
  Claim C1, as the code has it. For every grid of \<open>H\<close> rows and \<open>W\<close> columns, \<open>step\<close>
  gives a grid of the same dimensions. On a grid with at least 3 rows and 3 columns a
  cell is alive in it iff exactly 3 of the 8 cells adjacent to it on the torus (row index
  modulo \<open>H\<close>, column index modulo \<open>W\<close>) are alive, or the cell is alive and exactly 2 of
  them are; every other combination gives a dead cell. On every grid, also a smaller one,
  the same rule holds with the 8 wrapped positions counted one by one, a cell that lies
  in several of them once for each. The cell in the corner \<open>(0, 0)\<close> has the opposite
  corner \<open>(H - 1, W - 1)\<close> among its adjacent positions and counts it when it is alive.
\<close>

theorem life_rule:
  assumes "wf_grid H W g"
  shows "wf_grid H W (step g) \<and>
         (3 \<le> H \<and> 3 \<le> W \<longrightarrow>
            (\<forall>r<H. \<forall>c<W. step g ! r ! c =
               (distinct_live_neighbours H W g r c = 3 \<or>
                (g ! r ! c \<and> distinct_live_neighbours H W g r c = 2)))) \<and>
         (\<forall>r<H. \<forall>c<W. step g ! r ! c =
            (live_neighbours H W g r c = 3 \<or> (g ! r ! c \<and> live_neighbours H W g r c = 2))) \<and>
         (0 < H \<and> 0 < W \<and> g ! (H - 1) ! (W - 1) \<longrightarrow>
            (H - 1, W - 1) \<in> set (adjacent H W 0 0) \<and> 1 \<le> live_neighbours H W g 0 0 \<and>
            (3 \<le> H \<and> 3 \<le> W \<longrightarrow> 1 \<le> distinct_live_neighbours H W g 0 0))"
proof (intro conjI allI impI)
  show "wf_grid H W (step g)" using assms by (rule wf_step)
next
  fix r c assume "3 \<le> H \<and> 3 \<le> W" "r < H" "c < W"
  then show "step g ! r ! c =
      (distinct_live_neighbours H W g r c = 3 \<or>
       (g ! r ! c \<and> distinct_live_neighbours H W g r c = 2))"
    using assms by (simp add: nth_step neighbors_live_neighbours distinct_live_neighbours_eq)
next
  fix r c assume "r < H" "c < W"
  then show "step g ! r ! c =
      (live_neighbours H W g r c = 3 \<or> (g ! r ! c \<and> live_neighbours H W g r c = 2))"
    using assms by (simp add: nth_step neighbors_live_neighbours)
next
  assume a: "0 < H \<and> 0 < W \<and> g ! (H - 1) ! (W - 1)"
  then have h: "hd (adjacent H W 0 0) = (H - 1, W - 1)" by (simp add: opposite_corner)
  then show "(H - 1, W - 1) \<in> set (adjacent H W 0 0)"
    by (metis hd_in_set adjacent_eq list.distinct(1))
  from h a have "alive g (hd (adjacent H W 0 0))" by (simp add: alive_def)
  then have "filter (alive g) (adjacent H W 0 0) \<noteq> []"
    by (simp add: adjacent_eq)
  then show l: "1 \<le> live_neighbours H W g 0 0"
    by (cases "filter (alive g) (adjacent H W 0 0)") (simp_all add: live_neighbours_def)
  assume "3 \<le> H \<and> 3 \<le> W"
  with l show "1 \<le> distinct_live_neighbours H W g 0 0"
    by (simp add: distinct_live_neighbours_eq)
qed

text \<open>
  An instance on a 3 by 3 grid: the dead corner cell \<open>(0, 0)\<close> has three live neighbours,
  one of them the opposite corner, and is born.
\<close>

theorem life_rule_witness:
  "wf_grid 3 3 [[False, True, False], [True, False, False], [False, False, True]] \<and>
   wf_grid 3 3 (step [[False, True, False], [True, False, False], [False, False, True]]) \<and>
   step [[False, True, False], [True, False, False], [False, False, True]] ! 0 ! 0 \<and>
   distinct_live_neighbours 3 3
     [[False, True, False], [True, False, False], [False, False, True]] 0 0 = 3 \<and>
   live_neighbours 3 3 [[False, True, False], [True, False, False], [False, False, True]] 0 0 = 3 \<and>
   (2, 2) \<in> set (adjacent 3 3 0 0)"
proof -
  let ?g = "[[False, True, False], [True, False, False], [False, False, True]]"
  have wf: "wf_grid 3 3 ?g" by (simp add: wf_grid_def)
  have n: "live_neighbours 3 3 ?g 0 0 = 3"
    by (simp add: live_neighbours_def adjacent_eq wrap_def alive_def)
  have d: "distinct_live_neighbours 3 3 ?g 0 0 = 3"
    using n by (simp add: distinct_live_neighbours_eq)
  have c: "(0::nat) < 3 \<and> (0::nat) < 3 \<and> ?g ! (3 - 1) ! (3 - 1)" by simp
  from life_rule[OF wf] n d c wf show ?thesis by simp
qed

text \<open>
  On the all-alive 2 by 2 grid the cell \<open>(0, 0)\<close> is alive and has exactly 3 live cells
  among its adjacent cells, the three other cells of the grid, and it dies.
\<close>

theorem life_rule_counterexample:
  "wf_grid 2 2 full2 \<and> full2 ! 0 ! 0 \<and> distinct_live_neighbours 2 2 full2 0 0 = 3 \<and>
   \<not> step full2 ! 0 ! 0"
proof -
  have "set (filter (alive full2) (adjacent 2 2 0 0)) = {(0, 1), (1, 0), (1, 1)}"
    by (auto simp: adjacent_eq wrap_def alive_def)
  then have "distinct_live_neighbours 2 2 full2 0 0 = 3"
    by (simp add: distinct_live_neighbours_def del: set_filter)
  moreover have "step full2 = [[False, False], [False, False]]"
    by (simp add: step_eval)
  ultimately show ?thesis by (simp add: wf_grid_def)
qed

text \<open>
  Claim C2, as the code has it. On the 2 by 2 grid with every cell alive the rolled sum
  gives 8 for every cell, not 3: the three other cells are reached by 2, 2 and 4 of the
  eight shifts. Hence \<open>step\<close> turns the all-alive 2 by 2 grid into the all-dead one.
\<close>

theorem all_alive_2x2:
  "neighbors [[True, True], [True, True]] = [[8, 8], [8, 8]] \<and>
   step [[True, True], [True, True]] = [[False, False], [False, False]]"
  by (simp add: step_def neighbors_def rolled_def offsets_eq roll0_def roll1_def roll_def
        add_scalar_def add_grid_def)

text \<open>
  The count is not 3 and the grid is not its own successor, as the specification's
  end-to-end scenario has it.
\<close>

theorem all_alive_2x2_counterexample:
  "neighbors [[True, True], [True, True]] \<noteq> [[3, 3], [3, 3]] \<and>
   step [[True, True], [True, True]] \<noteq> [[True, True], [True, True]]"
  by (simp add: step_def neighbors_def rolled_def offsets_eq roll0_def roll1_def roll_def
        add_scalar_def add_grid_def)

text \<open>
  Claim C10. On a grid with at least 3 rows and 3 columns the rolled sum at a cell is the
  number of live cells among the 8 distinct cells adjacent to it on the torus. On a grid
  with fewer than 3 rows or fewer than 3 columns the 8 shifts reach some cell more than
  once, and the two counts differ: on the all-alive grid the rolled sum is 8 at every
  cell, while fewer than 8 distinct cells are adjacent to it.
\<close>

theorem rolled_sum_refines:
  "(wf_grid H W g \<and> 3 \<le> H \<and> 3 \<le> W \<and> r < H \<and> c < W \<longrightarrow>
      neighbors g ! r ! c = distinct_live_neighbours H W g r c) \<and>
   (0 < H \<and> 0 < W \<and> (H < 3 \<or> W < 3) \<and> r < H \<and> c < W \<longrightarrow>
      neighbors (replicate H (replicate W True)) ! r ! c = 8 \<and>
      distinct_live_neighbours H W (replicate H (replicate W True)) r c < 8)"
proof (intro conjI impI)
  assume a: "wf_grid H W g \<and> 3 \<le> H \<and> 3 \<le> W \<and> r < H \<and> c < W"
  then have "distinct (filter (alive g) (adjacent H W r c))"
    by (simp add: distinct_adjacent)
  then have "distinct_live_neighbours H W g r c = live_neighbours H W g r c"
    using distinct_card[of "filter (alive g) (adjacent H W r c)"]
    by (simp add: distinct_live_neighbours_def live_neighbours_def del: set_filter)
  with a show "neighbors g ! r ! c = distinct_live_neighbours H W g r c"
    by (simp add: neighbors_live_neighbours)
next
  assume a: "0 < H \<and> 0 < W \<and> (H < 3 \<or> W < 3) \<and> r < H \<and> c < W"
  then show "neighbors (replicate H (replicate W True)) ! r ! c = 8"
    by (simp add: neighbors_live_neighbours[OF wf_full] live_neighbours_full)
  let ?g = "replicate H (replicate W True)"
  from a have nd: "\<not> distinct (adjacent H W r c)" by (simp add: not_distinct_adjacent)
  have "set (filter (alive ?g) (adjacent H W r c)) \<subseteq> set (adjacent H W r c)" by auto
  then have "card (set (filter (alive ?g) (adjacent H W r c))) \<le> card (set (adjacent H W r c))"
    by (rule card_mono[rotated]) simp
  moreover have "card (set (adjacent H W r c)) \<noteq> length (adjacent H W r c)"
    using nd card_distinct by blast
  moreover have "card (set (adjacent H W r c)) \<le> length (adjacent H W r c)"
    by (rule card_length)
  moreover have "length (adjacent H W r c) = 8" by (simp add: adjacent_eq)
  ultimately show "distinct_live_neighbours H W ?g r c < 8"
    by (simp add: distinct_live_neighbours_def del: set_filter)
qed

text \<open>An instance of each half: a 3 by 3 grid, and the all-alive 2 by 2 grid.\<close>

theorem rolled_sum_refines_witness:
  "neighbors [[False, True, False], [True, False, False], [False, False, True]] ! 0 ! 0 =
     distinct_live_neighbours 3 3
       [[False, True, False], [True, False, False], [False, False, True]] 0 0 \<and>
   neighbors (replicate 2 (replicate 2 True)) ! 0 ! 0 = 8 \<and>
   distinct_live_neighbours 2 2 (replicate 2 (replicate 2 True)) 0 0 < 8"
proof -
  let ?g = "[[False, True, False], [True, False, False], [False, False, True]]"
  have wf: "wf_grid 3 3 ?g" by (simp add: wf_grid_def)
  from rolled_sum_refines[of 3 3 ?g 0 0] rolled_sum_refines[of 2 2 "[]" 0 0] wf
  show ?thesis by simp
qed

subsection \<open>Rendering\<close>

text \<open>
  Claim C8. For every grid of \<open>H\<close> rows and \<open>W\<close> columns (in particular every grid of at
  least 1 by 1), \<open>render\<close> gives a bitmap of the same dimensions whose pixel at
  \<open>(r, c)\<close> is \<open>(255, 255, 255)\<close> iff the cell at \<open>(r, c)\<close> is alive, and \<open>(0, 0, 0)\<close>
  iff it is dead.
\<close>

theorem render_pixels:
  assumes "wf_grid H W g"
  shows "wf_grid H W (render H W g) \<and>
         (\<forall>r<H. \<forall>c<W. (render H W g ! r ! c = [255, 255, 255]) = (g ! r ! c) \<and>
                        (render H W g ! r ! c = [0, 0, 0]) = (\<not> g ! r ! c))"
  using assms by (simp add: wf_render nth_render)

text \<open>An instance: a grid of one row with a live and a dead cell.\<close>

theorem render_pixels_witness:
  "wf_grid 1 2 [[True, False]] \<and> wf_grid 1 2 (render 1 2 [[True, False]]) \<and>
   render 1 2 [[True, False]] ! 0 ! 0 = [255, 255, 255] \<and>
   render 1 2 [[True, False]] ! 0 ! 1 = [0, 0, 0]"
proof -
  have wf: "wf_grid 1 2 [[True, False]]" by (simp add: wf_grid_def)
  from render_pixels[OF wf] wf show ?thesis by simp
qed

subsection \<open>The degeneracy policy\<close>

text \<open>
  Claim C3, as the code has it. The candidate is compared with \<open>prev\<close>, the grid two
  generations before it, so the policy detects repetition of period 1 and of period 2.
  For every oscillator of period 2 (a grid \<open>G\<close> with \<open>step (step G) = G\<close> and
  \<open>step G \<noteq> G\<close>, both states non-empty), an engine whose current grid is \<open>G\<close> and
  whose previous grid is not \<open>step G\<close> (as after seeding with \<open>G\<close>) emits \<open>step G\<close> without
  a new draw, and in the next iteration discards the candidate \<open>G\<close> and emits a freshly
  drawn grid: the oscillator does not run on.
\<close>

theorem period2_reseeded:
  assumes "step (step G) = G" "step G \<noteq> G" "any_grid G" "any_grid (step G)"
    and "grid s = G" "prev s \<noteq> step G"
  shows "grid (body e a H W fd s) = step G \<and>
         calls (body e a H W fd s) = calls s \<and>
         grid (body e a H W fd (body e a H W fd s)) = seed_grid e a (calls s) H W \<and>
         calls (body e a H W fd (body e a H W fd s)) = Suc (calls s)"
proof -
  from assms have n1: "\<not> reseeds (step (grid s)) (prev s)"
    by (auto simp: reseeds_def array_equal_def)
  then have g1: "grid (body e a H W fd s) = step G" and c1: "calls (body e a H W fd s) = calls s"
    using assms(5) by (simp_all add: grid_body calls_body)
  have "reseeds (step (grid (body e a H W fd s))) (prev (body e a H W fd s))"
    using assms(1,5) g1 by (simp add: reseeds_def array_equal_def prev_body)
  then show ?thesis using g1 c1
    by (simp add: grid_body calls_body)
qed

text \<open>An instance: the blinker on the 5 by 5 torus, as the seed grid.\<close>

theorem period2_reseeded_witness:
  "step (step blinker) = blinker \<and> step blinker \<noteq> blinker \<and>
   any_grid blinker \<and> any_grid (step blinker) \<and>
   grid (seeded \<lparr>matrix = Some (5, 5), random = scripted [blinker, corner5], sigint = None\<rparr>
           default_args 5 5) = blinker \<and>
   grid (body \<lparr>matrix = Some (5, 5), random = scripted [blinker, corner5], sigint = None\<rparr>
           default_args 5 5 (1 / 30)
          (seeded \<lparr>matrix = Some (5, 5), random = scripted [blinker, corner5], sigint = None\<rparr>
             default_args 5 5)) = step blinker \<and>
   calls (body \<lparr>matrix = Some (5, 5), random = scripted [blinker, corner5], sigint = None\<rparr>
           default_args 5 5 (1 / 30)
          (body \<lparr>matrix = Some (5, 5), random = scripted [blinker, corner5], sigint = None\<rparr>
             default_args 5 5 (1 / 30)
            (seeded \<lparr>matrix = Some (5, 5), random = scripted [blinker, corner5], sigint = None\<rparr>
               default_args 5 5))) = 2"
proof -
  let ?e = "\<lparr>matrix = Some (5, 5), random = scripted [blinker, corner5], sigint = None\<rparr>"
  let ?s = "seeded ?e default_args 5 5"
  have g: "grid ?s = blinker" and p: "prev ?s = blinker" and c: "calls ?s = 1"
    by (simp_all add: seeded_def seed_blinker)
  have ne: "step blinker \<noteq> blinker"
    unfolding step_blinker by (simp add: blinker_def)
  have a1: "any_grid blinker" by (simp add: any_grid_def blinker_def)
  have a2: "any_grid (step blinker)" unfolding step_blinker by (simp add: any_grid_def)
  from ne p have p': "prev ?s \<noteq> step blinker" by simp
  from period2_reseeded[OF step_step_blinker ne a1 a2 g p', of ?e default_args 5 5 "1 / 30"]
    step_step_blinker ne a1 a2 g c
  show ?thesis by simp
qed

text \<open>
  Seeded with the blinker, the engine does not show the blinker again in the second
  generation, but the grid of the second draw.
\<close>

theorem blinker_reseeded:
  "step (step blinker) = blinker \<and> step blinker \<noteq> blinker \<and>
   any_grid blinker \<and> any_grid (step blinker) \<and>
   grid (seeded \<lparr>matrix = Some (5, 5), random = scripted [blinker, corner5], sigint = None\<rparr>
           default_args 5 5) = blinker \<and>
   grid (body \<lparr>matrix = Some (5, 5), random = scripted [blinker, corner5], sigint = None\<rparr>
           default_args 5 5 (1 / 30)
          (body \<lparr>matrix = Some (5, 5), random = scripted [blinker, corner5], sigint = None\<rparr>
             default_args 5 5 (1 / 30)
            (seeded \<lparr>matrix = Some (5, 5), random = scripted [blinker, corner5], sigint = None\<rparr>
               default_args 5 5))) = corner5"
proof -
  let ?e = "\<lparr>matrix = Some (5, 5), random = scripted [blinker, corner5], sigint = None\<rparr>"
  let ?s = "seeded ?e default_args 5 5"
  have g: "grid ?s = blinker" by (simp add: seeded_def seed_blinker)
  have ne: "step blinker \<noteq> blinker"
    unfolding step_blinker by (simp add: blinker_def)
  have a1: "any_grid blinker" by (simp add: any_grid_def blinker_def)
  have a2: "any_grid (step blinker)" unfolding step_blinker by (simp add: any_grid_def)
  have s1: "body ?e default_args 5 5 (1 / 30) ?s =
      ?s\<lparr>grid := step blinker, prev := blinker,
         trace := trace ?s @ [SetImage (render 5 5 (step blinker)), Sleep (1 / 30)]\<rparr>"
    using ne a2 by (simp add: state_eval seed_blinker)
  have "grid (body ?e default_args 5 5 (1 / 30) (body ?e default_args 5 5 (1 / 30) ?s)) = corner5"
    unfolding s1 by (simp add: state_eval seed_blinker seed_blinker1 step_step_blinker)
  with step_step_blinker ne a1 a2 g show ?thesis by simp
qed

text \<open>
  Claim C4, as the code has it. Let \<open>G\<close> be a still life, \<open>step G = G\<close>, and the current
  grid. When the previous grid is \<open>G\<close> too (\<open>G\<close> was emitted twice in a row, or \<open>G\<close> is the
  seed grid), the next emitted state is a freshly drawn grid of the configured density.
  When the previous grid is another one and \<open>G\<close> is not empty, \<open>G\<close> is emitted once
  more, and the state after that is the freshly drawn grid.
\<close>

theorem still_life_policy:
  assumes "step G = G" "grid s = G"
  shows "(prev s = G \<longrightarrow>
            grid (body e a H W fd s) = seed_grid e a (calls s) H W \<and>
            trace (body e a H W fd s) =
              trace s @ [SetImage (render H W (seed_grid e a (calls s) H W)), Sleep fd]) \<and>
         (prev s \<noteq> G \<and> any_grid G \<longrightarrow>
            grid (body e a H W fd s) = G \<and>
            trace (body e a H W fd s) = trace s @ [SetImage (render H W G), Sleep fd] \<and>
            grid (body e a H W fd (body e a H W fd s)) = seed_grid e a (calls s) H W)"
proof (intro conjI impI)
  assume p: "prev s = G"
  with assms have "reseeds (step (grid s)) (prev s)"
    by (simp add: reseeds_def array_equal_def)
  then show g: "grid (body e a H W fd s) = seed_grid e a (calls s) H W"
    by (simp add: grid_body)
  show "trace (body e a H W fd s) =
      trace s @ [SetImage (render H W (seed_grid e a (calls s) H W)), Sleep fd]"
    using trace_body[of e a H W fd s] g by simp
next
  assume p: "prev s \<noteq> G \<and> any_grid G"
  with assms have n: "\<not> reseeds (step (grid s)) (prev s)"
    by (auto simp: reseeds_def array_equal_def)
  with assms show g: "grid (body e a H W fd s) = G"
    by (simp add: grid_body)
  show "trace (body e a H W fd s) = trace s @ [SetImage (render H W G), Sleep fd]"
    using trace_body[of e a H W fd s] g by simp
  have "reseeds (step (grid (body e a H W fd s))) (prev (body e a H W fd s))"
    using assms g by (simp add: reseeds_def array_equal_def prev_body)
  then show "grid (body e a H W fd (body e a H W fd s)) = seed_grid e a (calls s) H W"
    using n by (simp add: grid_body calls_body)
qed

text \<open>An instance of each case: the block on the 4 by 4 torus.\<close>

theorem still_life_policy_witness:
  "step block = block \<and> any_grid block \<and> tromino \<noteq> block \<and>
   grid (body \<lparr>matrix = Some (4, 4), random = scripted [tromino, lone], sigint = None\<rparr>
           default_args 4 4 (1 / 30)
          \<lparr>grid = block, prev = tromino, running = True, calls = 1, trace = []\<rparr>) = block \<and>
   grid (body \<lparr>matrix = Some (4, 4), random = scripted [tromino, lone], sigint = None\<rparr>
           default_args 4 4 (1 / 30)
          \<lparr>grid = block, prev = block, running = True, calls = 1, trace = []\<rparr>) =
     seed_grid \<lparr>matrix = Some (4, 4), random = scripted [tromino, lone], sigint = None\<rparr>
       default_args 1 4 4"
proof -
  let ?e = "\<lparr>matrix = Some (4, 4), random = scripted [tromino, lone], sigint = None\<rparr>"
  let ?s1 = "\<lparr>grid = block, prev = tromino, running = True, calls = 1, trace = []\<rparr>"
  let ?s2 = "\<lparr>grid = block, prev = block, running = True, calls = 1, trace = []\<rparr>"
  have "grid ?s1 = block" "grid ?s2 = block" by simp_all
  from still_life_policy[OF step_block this(1), of ?e default_args 4 4 "1 / 30"]
    still_life_policy[OF step_block this(2), of ?e default_args 4 4 "1 / 30"]
    tromino_not_block any_block step_block
  show ?thesis by simp
qed

text \<open>
  Seeded with the L-tromino, the engine pushes the block in the first iteration and the
  block again in the second.
\<close>

theorem block_emitted_twice:
  "step block = block \<and> any_grid block \<and>
   trace (body \<lparr>matrix = Some (4, 4), random = scripted [tromino, lone], sigint = None\<rparr>
            default_args 4 4 (1 / 30)
           (body \<lparr>matrix = Some (4, 4), random = scripted [tromino, lone], sigint = None\<rparr>
              default_args 4 4 (1 / 30)
             (seeded \<lparr>matrix = Some (4, 4), random = scripted [tromino, lone], sigint = None\<rparr>
                default_args 4 4))) =
     [Init (configure default_args), SetImage (render 4 4 block), Sleep (1 / 30),
      SetImage (render 4 4 block), Sleep (1 / 30)]"
  unfolding body_tromino body_block by (simp add: step_block any_block)

text \<open>
  Claim C9, as the code has it. For every grid for which \<open>step\<close> gives the grid without
  live cells, the engine discards that candidate and emits the freshly drawn grid: a cell
  is alive iff its draw is below the configured density. The loop body has no error
  result. The emitted grid has a live cell exactly when some draw is below the density;
  otherwise it is empty again.
\<close>

theorem extinction_reseeded:
  assumes "\<not> any_grid (step (grid s))"
  shows "grid (body e a H W fd s) = seed_grid e a (calls s) H W \<and>
         trace (body e a H W fd s) =
           trace s @ [SetImage (render H W (seed_grid e a (calls s) H W)), Sleep fd] \<and>
         any_grid (grid (body e a H W fd s)) =
           (\<exists>r<H. \<exists>c<W. random e (calls s) r c < seed a)"
proof -
  from assms have "reseeds (step (grid s)) (prev s)" by (simp add: reseeds_def)
  then have g: "grid (body e a H W fd s) = seed_grid e a (calls s) H W"
    by (simp add: grid_body)
  then show ?thesis using trace_body[of e a H W fd s] by (simp add: any_seed_grid)
qed

text \<open>An instance: a lone cell on the 3 by 3 torus dies, and the second draw is shown.\<close>

theorem extinction_reseeded_witness:
  "\<not> any_grid (step lone) \<and>
   grid (body \<lparr>matrix = Some (3, 3), random = scripted [lone, lone], sigint = None\<rparr>
        default_args 3 3 (1 / 30)
        \<lparr>grid = lone, prev = dark3, running = True, calls = 1, trace = []\<rparr>) = lone \<and>
   any_grid (grid (body \<lparr>matrix = Some (3, 3), random = scripted [lone, lone], sigint = None\<rparr>
        default_args 3 3 (1 / 30)
        \<lparr>grid = lone, prev = dark3, running = True, calls = 1, trace = []\<rparr>))"
proof -
  let ?e = "\<lparr>matrix = Some (3, 3), random = scripted [lone, lone], sigint = None\<rparr>"
  let ?s = "\<lparr>grid = lone, prev = dark3, running = True, calls = 1, trace = []\<rparr>"
  have d: "\<not> any_grid (step (grid ?s))" by (simp add: step_lone any_grid_def)
  have l: "any_grid lone" by (simp add: lone_def any_grid_def)
  from extinction_reseeded[OF d, of ?e default_args 3 3 "1 / 30"] d l
  show ?thesis by (simp add: seed_lone)
qed

text \<open>
  With density 0 the seed grid is empty, its successor is empty, and the frame pushed
  after the reseed is dark.
\<close>

theorem extinction_stays_dark:
  "\<not> any_grid (grid (seeded \<lparr>matrix = Some (3, 3), random = scripted [lone, lone],
        sigint = Some (Suc 0)\<rparr> (default_args\<lparr>seed := 0\<rparr>) 3 3)) \<and>
   \<not> any_grid (step dark3) \<and>
   main \<lparr>matrix = Some (3, 3), random = scripted [lone, lone], sigint = Some (Suc 0)\<rparr>
     (default_args\<lparr>seed := 0\<rparr>) =
   Some (Inr [Init (configure (default_args\<lparr>seed := 0\<rparr>)), SetImage (render 3 3 dark3),
     Sleep (1 / 30), Clear])"
proof -
  let ?e = "\<lparr>matrix = Some (3, 3), random = scripted [lone, lone], sigint = Some (Suc 0)\<rparr>"
  let ?a = "default_args\<lparr>seed := 0\<rparr>"
  have fd: "frame_delay ?a = Inr (1 / 30)" by (rule frame_delay_default)
  have "grid (body ?e ?a 3 3 (1 / 30) (seeded ?e ?a 3 3)) = dark3"
    by (simp add: state_eval seed_zero step_dark3)
  then show ?thesis
    using main_interrupted[of ?e 3 3 "Suc 0" ?a "1 / 30"]
    by (simp add: fd seeded_def seed_zero step_dark3 any_grid_def)
qed

subsection \<open>The run loop\<close>

text \<open>
  Claim C5, as the code has it. The loop does not read a clock. In every iteration it
  pushes the frame and then sleeps for the whole frame delay, whatever time the iteration
  took; the delay is computed once, as \<open>1 / max 1 fps\<close> seconds. A run that is
  interrupted during its \<open>n\<close>-th iteration makes exactly \<open>n\<close> such pairs of calls. When
  \<open>max 1 fps\<close> is beyond the range of a float, the computation of the delay raises
  \<open>OverflowError\<close> and the run ends before the loop.
\<close>

theorem pacing_fixed_sleep:
  assumes "matrix e = Some (W, H)" "sigint e = Some n"
  shows "(max 1 (fps a) < float_limit \<longrightarrow>
            (\<exists>frames. length frames = n \<and>
               main e a = Some (Inr (Init (configure a) #
                 concat (map (\<lambda>f. [SetImage f, Sleep (1 / real_of_int (max 1 (fps a)))])
                   frames) @ [Clear])))) \<and>
         (float_limit \<le> max 1 (fps a) \<longrightarrow>
            main e a = Some (Inl (OverflowError, [Init (configure a)])))"
proof (intro conjI impI)
  assume "max 1 (fps a) < float_limit"
  then have fd: "frame_delay a = Inr (1 / real_of_int (max 1 (fps a)))"
    by (rule frame_delay_ok)
  let ?d = "1 / real_of_int (max 1 (fps a))"
  let ?F = "\<lambda>i. render H W (grid ((body e a H W ?d ^^ Suc i) (seeded e a H W)))"
  have "main e a = Some (Inr (Init (configure a) #
      concat (map (\<lambda>f. [SetImage f, Sleep ?d]) (map ?F [0..<n])) @ [Clear]))"
    unfolding main_interrupted[OF assms fd] by (simp add: comp_def)
  moreover have "length (map ?F [0..<n]) = n" by simp
  ultimately show "\<exists>frames. length frames = n \<and>
      main e a = Some (Inr (Init (configure a) #
        concat (map (\<lambda>f. [SetImage f, Sleep ?d]) frames) @ [Clear]))"
    by blast
next
  assume "float_limit \<le> max 1 (fps a)"
  with assms(1) show "main e a = Some (Inl (OverflowError, [Init (configure a)]))"
    by (rule main_overflow)
qed

text \<open>
  An instance of each case: a run of one iteration at 30 frames per second, and a frame
  rate of \<open>2^1024\<close>, both on a 2 by 2 matrix.
\<close>

theorem pacing_fixed_sleep_witness:
  "matrix \<lparr>matrix = Some (2, 2), random = scripted [duo, solo], sigint = Some (Suc 0)\<rparr> =
     Some (2, 2) \<and>
   sigint \<lparr>matrix = Some (2, 2), random = scripted [duo, solo], sigint = Some (Suc 0)\<rparr> =
     Some (Suc 0) \<and>
   max 1 (fps default_args) < float_limit \<and>
   (\<exists>frames. length frames = Suc 0 \<and>
      main \<lparr>matrix = Some (2, 2), random = scripted [duo, solo], sigint = Some (Suc 0)\<rparr>
        default_args =
      Some (Inr (Init (configure default_args) #
        concat (map (\<lambda>f. [SetImage f, Sleep (1 / real_of_int (max 1 (fps default_args)))])
          frames) @ [Clear]))) \<and>
   float_limit \<le> max 1 (fps (default_args\<lparr>fps := 2 ^ 1024\<rparr>)) \<and>
   main \<lparr>matrix = Some (2, 2), random = scripted [duo, solo], sigint = Some (Suc 0)\<rparr>
     (default_args\<lparr>fps := 2 ^ 1024\<rparr>) =
   Some (Inl (OverflowError, [Init (configure (default_args\<lparr>fps := 2 ^ 1024\<rparr>))]))"
proof -
  let ?e = "\<lparr>matrix = Some (2, 2), random = scripted [duo, solo], sigint = Some (Suc 0)\<rparr>"
  have s: "max 1 (fps default_args) < float_limit"
    by (simp add: default_args_def float_limit_def)
  have h: "float_limit \<le> max 1 (fps (default_args\<lparr>fps := 2 ^ 1024\<rparr>))"
    by (simp add: float_limit_def)
  from pacing_fixed_sleep[of ?e 2 2 "Suc 0" default_args]
    pacing_fixed_sleep[of ?e 2 2 "Suc 0" "default_args\<lparr>fps := 2 ^ 1024\<rparr>"] s h
  show ?thesis by simp
qed

text \<open>
  At 30 frames per second the run sleeps 1/30 s. The rule of the specification asks for
  7/300 s after an iteration of 10 ms, and for no sleep after an iteration of 1 s.
\<close>

theorem pacing_counterexample:
  "main \<lparr>matrix = Some (2, 2), random = scripted [duo, solo], sigint = Some (Suc 0)\<rparr>
     default_args =
   Some (Inr [Init (configure default_args), SetImage (render 2 2 solo), Sleep (1 / 30),
     Clear]) \<and>
   frame_delay default_args = Inr (1 / 30) \<and>
   spec_pacing (1 / 30) (1 / 100) = [Sleep (7 / 300)] \<and>
   spec_pacing (1 / 30) 1 = []"
  using frame_delay_default[of "seed default_args"]
  by (simp add: main_duo spec_pacing_def)

text \<open>
  Claim C6, as the code has it. A seed density outside \<open>[0, 1]\<close> is not rejected. The
  matrix is constructed first. When that succeeds and the frame delay can be computed,
  the loop is entered and runs until it is interrupted, pushing one frame in each
  iteration; when \<open>max 1 fps\<close> is beyond the range of a float, the run ends with
  \<open>OverflowError\<close> after the matrix has been constructed.
\<close>

theorem density_not_validated:
  assumes "seed a < 0 \<or> 1 < seed a" "matrix e = Some (W, H)"
  shows "(max 1 (fps a) < float_limit \<longrightarrow>
            (sigint e = None \<longrightarrow> main e a = None) \<and>
            (\<forall>n. sigint e = Some n \<longrightarrow>
               (\<exists>t. main e a = Some (Inr (Init (configure a) # t @ [Clear])) \<and>
                    length (filter is_SetImage t) = n))) \<and>
         (float_limit \<le> max 1 (fps a) \<longrightarrow>
            main e a = Some (Inl (OverflowError, [Init (configure a)])))"
proof (intro conjI impI allI)
  assume "max 1 (fps a) < float_limit" "sigint e = None"
  then show "main e a = None"
    using main_forever[OF assms(2) _ frame_delay_ok] by simp
next
  fix n assume "max 1 (fps a) < float_limit" "sigint e = Some n"
  from main_interrupted[OF assms(2) this(2) frame_delay_ok[OF this(1)]] show
    "\<exists>t. main e a = Some (Inr (Init (configure a) # t @ [Clear])) \<and>
         length (filter is_SetImage t) = n"
    by (simp add: frames_SetImage)
next
  assume "float_limit \<le> max 1 (fps a)"
  with assms(2) show "main e a = Some (Inl (OverflowError, [Init (configure a)]))"
    by (rule main_overflow)
qed

text \<open>
  An instance of each case: density 3/2, without an interrupt, with one in the third
  iteration, and with a frame rate of \<open>2^1024\<close>.
\<close>

theorem density_not_validated_witness:
  "1 < seed (default_args\<lparr>seed := 3 / 2\<rparr>) \<and>
   max 1 (fps (default_args\<lparr>seed := 3 / 2\<rparr>)) < float_limit \<and>
   main \<lparr>matrix = Some (2, 2), random = scripted [solo, solo], sigint = None\<rparr>
     (default_args\<lparr>seed := 3 / 2\<rparr>) = None \<and>
   (\<exists>t. main \<lparr>matrix = Some (2, 2), random = scripted [solo, solo], sigint = Some 3\<rparr>
          (default_args\<lparr>seed := 3 / 2\<rparr>) =
        Some (Inr (Init (configure (default_args\<lparr>seed := 3 / 2\<rparr>)) # t @ [Clear])) \<and>
        length (filter is_SetImage t) = 3) \<and>
   float_limit \<le> max 1 (fps (default_args\<lparr>seed := 3 / 2, fps := 2 ^ 1024\<rparr>)) \<and>
   main \<lparr>matrix = Some (2, 2), random = scripted [solo, solo], sigint = Some 3\<rparr>
     (default_args\<lparr>seed := 3 / 2, fps := 2 ^ 1024\<rparr>) =
   Some (Inl (OverflowError,
     [Init (configure (default_args\<lparr>seed := 3 / 2, fps := 2 ^ 1024\<rparr>))]))"
proof -
  let ?a = "default_args\<lparr>seed := 3 / 2\<rparr>"
  let ?b = "default_args\<lparr>seed := 3 / 2, fps := 2 ^ 1024\<rparr>"
  have s: "seed ?a < 0 \<or> 1 < seed ?a" "seed ?b < 0 \<or> 1 < seed ?b" by simp_all
  have f: "max 1 (fps ?a) < float_limit" by (simp add: default_args_def float_limit_def)
  have h: "float_limit \<le> max 1 (fps ?b)" by (simp add: float_limit_def)
  from density_not_validated[OF s(1), of
      "\<lparr>matrix = Some (2, 2), random = scripted [solo, solo], sigint = None\<rparr>" 2 2]
    density_not_validated[OF s(1), of
      "\<lparr>matrix = Some (2, 2), random = scripted [solo, solo], sigint = Some 3\<rparr>" 2 2]
    density_not_validated[OF s(2), of
      "\<lparr>matrix = Some (2, 2), random = scripted [solo, solo], sigint = Some 3\<rparr>" 2 2]
    f h
  show ?thesis by simp
qed

text \<open>
  With density 3/2 the matrix is constructed, every cell is seeded alive and a frame is
  pushed.
\<close>

theorem density_accepted:
  "1 < seed (default_args\<lparr>seed := 3 / 2\<rparr>) \<and>
   main \<lparr>matrix = Some (2, 2), random = scripted [solo, solo], sigint = Some (Suc 0)\<rparr>
     (default_args\<lparr>seed := 3 / 2\<rparr>) =
   Some (Inr [Init (configure (default_args\<lparr>seed := 3 / 2\<rparr>)), SetImage (render 2 2 full2),
     Sleep (1 / 30), Clear])"
proof -
  let ?e = "\<lparr>matrix = Some (2, 2), random = scripted [solo, solo],
             sigint = Some (Suc 0)\<rparr>"
  let ?a = "default_args\<lparr>seed := 3 / 2\<rparr>"
  have fd: "frame_delay ?a = Inr (1 / 30)" by (rule frame_delay_default)
  have "step full2 = [[False, False], [False, False]]" by (simp add: step_eval)
  then have "grid (body ?e ?a 2 2 (1 / 30) (seeded ?e ?a 2 2)) = full2"
    by (simp add: state_eval seed_full)
  then show ?thesis
    using main_interrupted[of ?e 2 2 "Suc 0" ?a "1 / 30"]
    by (simp add: fd)
qed

text \<open>
  Claim C7, as the code has it. In every run in which the matrix is constructed and the
  frame delay can be computed, an interrupt during the \<open>n\<close>-th iteration (or, for
  \<open>n = 0\<close>, before the first) ends the loop after exactly \<open>n\<close> iterations, each with one
  \<open>SetImage\<close>; then \<open>Clear\<close> is called, once, as the last call of the run, so that no
  \<open>SetImage\<close> follows it. When \<open>max 1 fps\<close> is beyond the range of a float, the run ends
  with \<open>OverflowError\<close> before the loop and \<open>Clear\<close> is not called, whether or not the
  flag has been set.
\<close>

theorem cancellation_clears_once:
  assumes "matrix e = Some (W, H)" "sigint e = Some n"
  shows "(max 1 (fps a) < float_limit \<longrightarrow>
            (\<exists>t. main e a = Some (Inr (t @ [Clear])) \<and> Clear \<notin> set t \<and>
                 length (filter is_SetImage t) = n)) \<and>
         (float_limit \<le> max 1 (fps a) \<longrightarrow>
            main e a = Some (Inl (OverflowError, [Init (configure a)])))"
proof (intro conjI impI)
  assume "max 1 (fps a) < float_limit"
  then have fd: "frame_delay a = Inr (1 / real_of_int (max 1 (fps a)))"
    by (rule frame_delay_ok)
  let ?d = "1 / real_of_int (max 1 (fps a))"
  let ?t = "Init (configure a) #
     concat (map (\<lambda>i. [SetImage (render H W (grid ((body e a H W ?d ^^ Suc i)
            (seeded e a H W)))), Sleep ?d]) [0..<n])"
  have "main e a = Some (Inr (?t @ [Clear]))"
    using main_interrupted[OF assms fd] by simp
  moreover have "Clear \<notin> set ?t" by (simp add: frames_no_Clear)
  moreover have "length (filter is_SetImage ?t) = n" by (simp add: frames_SetImage)
  ultimately show "\<exists>t. main e a = Some (Inr (t @ [Clear])) \<and> Clear \<notin> set t \<and>
      length (filter is_SetImage t) = n"
    by blast
next
  assume "float_limit \<le> max 1 (fps a)"
  with assms(1) show "main e a = Some (Inl (OverflowError, [Init (configure a)]))"
    by (rule main_overflow)
qed

text \<open>
  An instance of each case: an interrupt during the third iteration at 30 frames per
  second, and at a frame rate of \<open>2^1024\<close>.
\<close>

theorem cancellation_clears_once_witness:
  "matrix \<lparr>matrix = Some (2, 2), random = scripted [duo, solo], sigint = Some 3\<rparr> =
     Some (2, 2) \<and>
   sigint \<lparr>matrix = Some (2, 2), random = scripted [duo, solo], sigint = Some 3\<rparr> =
     Some 3 \<and>
   max 1 (fps default_args) < float_limit \<and>
   (\<exists>t. main \<lparr>matrix = Some (2, 2), random = scripted [duo, solo], sigint = Some 3\<rparr>
          default_args = Some (Inr (t @ [Clear])) \<and>
        Clear \<notin> set t \<and> length (filter is_SetImage t) = 3) \<and>
   float_limit \<le> max 1 (fps (default_args\<lparr>fps := 2 ^ 1024\<rparr>)) \<and>
   main \<lparr>matrix = Some (2, 2), random = scripted [duo, solo], sigint = Some 3\<rparr>
     (default_args\<lparr>fps := 2 ^ 1024\<rparr>) =
   Some (Inl (OverflowError, [Init (configure (default_args\<lparr>fps := 2 ^ 1024\<rparr>))]))"
proof -
  let ?e = "\<lparr>matrix = Some (2, 2), random = scripted [duo, solo], sigint = Some 3\<rparr>"
  have s: "max 1 (fps default_args) < float_limit"
    by (simp add: default_args_def float_limit_def)
  have h: "float_limit \<le> max 1 (fps (default_args\<lparr>fps := 2 ^ 1024\<rparr>))"
    by (simp add: float_limit_def)
  from cancellation_clears_once[of ?e 2 2 3 default_args]
    cancellation_clears_once[of ?e 2 2 3 "default_args\<lparr>fps := 2 ^ 1024\<rparr>"] s h
  show ?thesis by simp
qed

text \<open>
  With a frame rate of \<open>2^1024\<close> and the interrupt right after the handler is installed,
  the flag is set and the run ends with the error: the matrix has been constructed and
  \<open>Clear\<close> is not called.
\<close>

theorem cancellation_without_clear:
  "matrix \<lparr>matrix = Some (2, 2), random = scripted [duo, solo], sigint = Some 0\<rparr> =
     Some (2, 2) \<and>
   sigint \<lparr>matrix = Some (2, 2), random = scripted [duo, solo], sigint = Some 0\<rparr> = Some 0 \<and>
   frame_delay (default_args\<lparr>fps := 2 ^ 1024\<rparr>) = Inl OverflowError \<and>
   main \<lparr>matrix = Some (2, 2), random = scripted [duo, solo], sigint = Some 0\<rparr>
     (default_args\<lparr>fps := 2 ^ 1024\<rparr>) =
   Some (Inl (OverflowError, [Init (configure (default_args\<lparr>fps := 2 ^ 1024\<rparr>))]))"
proof -
  let ?e = "\<lparr>matrix = Some (2, 2), random = scripted [duo, solo], sigint = Some 0\<rparr>"
  have h: "float_limit \<le> max 1 (fps (default_args\<lparr>fps := 2 ^ 1024\<rparr>))"
    by (simp add: float_limit_def)
  from main_overflow[of ?e 2 2 "default_args\<lparr>fps := 2 ^ 1024\<rparr>", OF _ h]
    frame_delay_overflow[OF h]
  show ?thesis by simp
qed

end
